theory Spec2Isabelle
  imports Main
begin

section \<open>The console chatbot of \<open>Chatbot.py\<close>\<close>

text \<open>
  The program talks to three things outside itself: the chat session of the vendor
  library (\<open>chat_session.send_message\<close>), the clock (\<open>time.sleep\<close>) and the console
  (\<open>input\<close>, \<open>print\<close>). Each call to one of them is recorded as an event, in program
  order; the state threaded through the model is the list of events so far, oldest first.
\<close>

subsection \<open>Exceptions, responses, events\<close>

text \<open>
  A raised exception is a value: its class name and the text \<open>str(e)\<close>. The values of
  this type stand for instances of Python's \<open>Exception\<close>, which is what the handlers at
  lines 61 and 119 catch.
\<close>

datatype exn = Exn string string

text \<open>
  The reply object of the vendor library. The program reads only its attribute \<open>text\<close>,
  here \<open>text_of\<close>. It is a property: reading it gives the reply text, or raises when the
  reply holds no text part.
\<close>

datatype response = Response (text_of: "exn + string")

datatype event =
    Send string \<comment> \<open>line 59: \<open>chat_session.send_message(user_message)\<close> is invoked\<close>
  | Sleep int \<comment> \<open>line 66: \<open>time.sleep(delay)\<close> has waited \<open>delay\<close> seconds\<close>
  | PrintRetry int int exn \<comment> \<open>line 63: "API call failed (attempt i+1/max_retries): e"\<close>
  | Prompt \<comment> \<open>line 93: \<open>input("You: ")\<close> shows the prompt\<close>
  | PrintGoodbye \<comment> \<open>line 97\<close>
  | PrintEmpty \<comment> \<open>line 102: "Bot: Please enter something to chat with me."\<close>
  | PrintReply string \<comment> \<open>line 114: "Bot:" and the reply text, wrapped at 80 columns\<close>
  | PrintNoResponse \<comment> \<open>line 117: "Bot: I didn't get a clear response. Please try again."\<close>
  | PrintUnrecoverable exn \<comment> \<open>lines 121 and 122: the diagnostic with \<open>e\<close>\<close>

type_synonym world = "event list"

text \<open>
  The remote operation is opaque. Within one run its \<open>n\<close>-th invocation (counted from 0
  over the whole run) with message \<open>m\<close> either raises or returns a reply; \<open>api n m\<close> is
  that outcome.
\<close>

type_synonym remote = "nat \<Rightarrow> string \<Rightarrow> exn + response"

fun invocations :: "world \<Rightarrow> nat" where
  "invocations [] = 0"
| "invocations (Send m # w) = Suc (invocations w)"
| "invocations (ev # w) = invocations w"

fun total_slept :: "world \<Rightarrow> int" where
  "total_slept [] = 0"
| "total_slept (Sleep d # w) = d + total_slept w"
| "total_slept (ev # w) = total_slept w"

fun sleeps :: "world \<Rightarrow> int list" where
  "sleeps [] = []"
| "sleeps (Sleep d # w) = d # sleeps w"
| "sleeps (ev # w) = sleeps w"

subsection \<open>The effects\<close>

definition send_message :: "remote \<Rightarrow> string \<Rightarrow> world \<Rightarrow> (exn + response) \<times> world" where
  "send_message api user_message w = (api (invocations w) user_message, w @ [Send user_message])"

text \<open>
  Delays are Python integers, so doubling them is exact and has no upper bound.
  \<open>time.sleep\<close> does have bounds. It first converts the seconds to a signed 64-bit count
  of nanoseconds, which raises \<open>OverflowError\<close> beyond 9223372036 seconds in either
  direction; it then refuses a negative length with a \<open>ValueError\<close>; otherwise it asks
  the operating system to wait, which the model takes to succeed.
\<close>

definition sleep :: "int \<Rightarrow> world \<Rightarrow> (exn + unit) \<times> world" where
  "sleep secs w =
     (if secs < - 9223372036 \<or> 9223372036 < secs
      then (Inl (Exn ''OverflowError'' ''timestamp too large to convert to C _PyTime_t''), w)
      else if secs < 0
      then (Inl (Exn ''ValueError'' ''sleep length must be non-negative''), w)
      else (Inr (), w @ [Sleep secs]))"

subsection \<open>\<open>call_api_with_backoff\<close> (lines 42 to 71)\<close>

text \<open>
  \<open>range(max_retries)\<close> is the list \<open>[0..max_retries - 1]\<close>, empty when \<open>max_retries \<le> 0\<close>.
  The loop body is one equation: a reply returns at once (line 60); a failure is printed
  (line 63) and then either slept on and retried with the doubled delay (lines 66, 67) or
  re-raised (line 70). Running out of indices is line 71, \<open>return None\<close>.
\<close>

fun backoff_loop ::
  "remote \<Rightarrow> string \<Rightarrow> int \<Rightarrow> int list \<Rightarrow> int \<Rightarrow> world \<Rightarrow> (exn + response option) \<times> world" where
  "backoff_loop api user_message max_retries [] delay w = (Inr None, w)"
| "backoff_loop api user_message max_retries (i # is) delay w =
     (case send_message api user_message w of
        (Inr response, w1) \<Rightarrow> (Inr (Some response), w1)
      | (Inl e, w1) \<Rightarrow>
          (let w2 = w1 @ [PrintRetry (i + 1) max_retries e] in
           if i < max_retries - 1 then
             (case sleep delay w2 of
                (Inl e', w3) \<Rightarrow> (Inl e', w3)
              | (Inr u, w3) \<Rightarrow> backoff_loop api user_message max_retries is (delay * 2) w3)
           else (Inl e, w2)))"

definition call_api_with_backoff ::
  "remote \<Rightarrow> string \<Rightarrow> int \<Rightarrow> int \<Rightarrow> world \<Rightarrow> (exn + response option) \<times> world" where
  "call_api_with_backoff api user_message max_retries initial_delay w =
     backoff_loop api user_message max_retries [0..max_retries - 1] initial_delay w"

subsection \<open>\<open>str.strip\<close> and \<open>str.lower\<close>\<close>

text \<open>
  Console lines are modelled as strings of 8-bit characters, read as the code points
  0 to 255. On these, Python's whitespace is 9 to 13, 28 to 32, 133 and 160, and
  \<open>lower\<close> moves \<open>A\<close> to \<open>Z\<close> and the accented capitals 192 to 222 (but not 215, the
  multiplication sign) up by 32.
\<close>

definition isspace :: "char \<Rightarrow> bool" where
  "isspace c = (let n = (of_char c :: nat) in
     (9 \<le> n \<and> n \<le> 13) \<or> (28 \<le> n \<and> n \<le> 32) \<or> n = 133 \<or> n = 160)"

definition strip :: "string \<Rightarrow> string" where
  "strip s = rev (dropWhile isspace (rev (dropWhile isspace s)))"

definition lower_char :: "char \<Rightarrow> char" where
  "lower_char c = (let n = (of_char c :: nat) in
     if (65 \<le> n \<and> n \<le> 90) \<or> (192 \<le> n \<and> n \<le> 222 \<and> n \<noteq> 215)
     then char_of (n + 32) else c)"

definition lower :: "string \<Rightarrow> string" where
  "lower s = map lower_char s"

subsection \<open>The interaction loop of \<open>run_chatbot\<close> (lines 92 to 123)\<close>

text \<open>
  The loop runs once the key is configured and the model and the chat session exist (the
  earlier steps end the process when they fail). The console input is the list of lines
  still to be read. \<open>input\<close> raises \<open>EOFError\<close> when there is none left; that happens
  outside the \<open>try\<close> of line 105, so it leaves \<open>run_chatbot\<close>. A result \<open>Inr ()\<close> is
  the loop left by \<open>break\<close>. The call at line 108 uses the defaults: 5 attempts, initial
  delay 1. Line 111 reads \<open>response.text\<close> inside the \<open>try\<close>, so an exception it raises is
  caught at line 119 like one of the call.
\<close>

fun interaction_loop :: "remote \<Rightarrow> string list \<Rightarrow> world \<Rightarrow> (exn + unit) \<times> world" where
  "interaction_loop chat [] w =
     (Inl (Exn ''EOFError'' ''EOF when reading a line''), w @ [Prompt])"
| "interaction_loop chat (line # rest) w =
     (let user_input = strip line; w1 = w @ [Prompt] in
      if lower user_input \<in> set [''exit'', ''quit''] then (Inr (), w1 @ [PrintGoodbye])
      else if user_input = [] then interaction_loop chat rest (w1 @ [PrintEmpty])
      else
        (case call_api_with_backoff chat user_input 5 1 w1 of
           (Inr response, w2) \<Rightarrow>
             (case response of
                Some r \<Rightarrow>
                  (case text_of r of
                     Inl e \<Rightarrow> (Inr (), w2 @ [PrintUnrecoverable e])
                   | Inr t \<Rightarrow>
                       (if t \<noteq> [] then interaction_loop chat rest (w2 @ [PrintReply t])
                        else interaction_loop chat rest (w2 @ [PrintNoResponse])))
              | None \<Rightarrow> interaction_loop chat rest (w2 @ [PrintNoResponse]))
         | (Inl e, w2) \<Rightarrow> (Inr (), w2 @ [PrintUnrecoverable e])))"

subsection \<open>Notions used to state the properties\<close>

text \<open>
  The events of \<open>k\<close> attempts in a row that fail and are slept on, starting at loop index
  \<open>i\<close> with the delay \<open>delay\<close>, when the session has been invoked \<open>c\<close> times before.
\<close>

fun failed_attempts ::
  "remote \<Rightarrow> string \<Rightarrow> int \<Rightarrow> int \<Rightarrow> int \<Rightarrow> nat \<Rightarrow> nat \<Rightarrow> world" where
  "failed_attempts api m R i delay c 0 = []"
| "failed_attempts api m R i delay c (Suc k) =
     [Send m, PrintRetry (i + 1) R (projl (api c m)), Sleep delay]
       @ failed_attempts api m R (i + 1) (delay * 2) (Suc c) k"

text \<open>The lengths of time for which \<open>time.sleep\<close> returns normally.\<close>

definition sleepable :: "int \<Rightarrow> bool" where
  "sleepable secs = (0 \<le> secs \<and> secs \<le> 9223372036)"

text \<open>
  A keyword "in any letter case": character by character, the input has the keyword's
  letter or, for a letter \<open>a\<close> to \<open>z\<close>, its capital (32 code points below).
\<close>

definition lowercase_letter :: "char \<Rightarrow> bool" where
  "lowercase_letter k = (97 \<le> (of_char k :: nat) \<and> (of_char k :: nat) \<le> 122)"

definition either_case :: "char \<Rightarrow> char \<Rightarrow> bool" where
  "either_case c k = (c = k \<or> (lowercase_letter k \<and> (of_char c :: nat) + 32 = of_char k))"

definition in_any_case :: "string \<Rightarrow> string \<Rightarrow> bool" where
  "in_any_case s keyword = list_all2 either_case s keyword"

text \<open>Three remote operations to run the model on.\<close>

definition always_down :: remote where
  "always_down n m = Inl (Exn ''ConnectionError'' ''down'')"

definition down_twice :: remote where
  "down_twice n m = (if n < 2 then Inl (Exn ''ConnectionError'' ''down'') else Inr (Response (Inr ''hello'')))"

definition always_up :: remote where
  "always_up n m = Inr (Response (Inr ''hello''))"

section \<open>Properties of the retry wrapper\<close>

subsection \<open>Counting events\<close>

lemma invocations_append: "invocations (a @ b) = invocations a + invocations b"
  by (induction a rule: invocations.induct) simp_all

lemma total_slept_append: "total_slept (a @ b) = total_slept a + total_slept b"
  by (induction a rule: total_slept.induct) simp_all

lemma sleeps_append: "sleeps (a @ b) = sleeps a @ sleeps b"
  by (induction a rule: sleeps.induct) simp_all

lemma invocations_failed_attempts: "invocations (failed_attempts api m R i delay c k) = k"
  by (induction k arbitrary: i delay c) simp_all


lemma failed_attempts_snoc:
  "failed_attempts api m R i delay c (Suc k) =
     failed_attempts api m R i delay c k
       @ [Send m, PrintRetry (i + int k + 1) R (projl (api (c + k) m)), Sleep (delay * 2 ^ k)]"
proof (induction k arbitrary: i delay c)
  case 0
  show ?case by simp
next
  case (Suc k)
  have "failed_attempts api m R i delay c (Suc (Suc k)) =
          [Send m, PrintRetry (i + 1) R (projl (api c m)), Sleep delay]
            @ failed_attempts api m R (i + 1) (delay * 2) (Suc c) (Suc k)"
    by simp
  also have "failed_attempts api m R (i + 1) (delay * 2) (Suc c) (Suc k) =
          failed_attempts api m R (i + 1) (delay * 2) (Suc c) k
            @ [Send m, PrintRetry (i + 1 + int k + 1) R (projl (api (Suc c + k) m)),
               Sleep (delay * 2 * 2 ^ k)]"
    by (rule Suc.IH)
  finally show ?case by (simp add: algebra_simps)
qed

subsection \<open>One pass through the loop body\<close>

lemma sleep_sleepable: "sleepable secs \<longleftrightarrow> sleep secs w = (Inr (), w @ [Sleep secs])"
  by (auto simp add: sleep_def sleepable_def)

lemma backoff_loop_step_ok:
  assumes "api (invocations w) m = Inr r"
  shows "backoff_loop api m R (i # is) delay w = (Inr (Some r), w @ [Send m])"
  using assms by (simp add: send_message_def)

lemma backoff_loop_step_fail:
  assumes "api (invocations w) m = Inl e" and "i < R - 1" and "sleepable delay"
  shows "backoff_loop api m R (i # is) delay w =
           backoff_loop api m R is (delay * 2) (w @ [Send m, PrintRetry (i + 1) R e, Sleep delay])"
  using assms by (simp add: send_message_def sleep_def sleepable_def)

lemma backoff_loop_step_refused:
  assumes "api (invocations w) m = Inl e" and "i < R - 1" and "\<not> sleepable delay"
  shows "backoff_loop api m R (i # is) delay w =
           (Inl (if delay < - 9223372036 \<or> 9223372036 < delay
                 then Exn ''OverflowError'' ''timestamp too large to convert to C _PyTime_t''
                 else Exn ''ValueError'' ''sleep length must be non-negative''),
            w @ [Send m, PrintRetry (i + 1) R e])"
  using assms by (auto simp add: send_message_def sleep_def sleepable_def)

lemma backoff_loop_step_last:
  assumes "api (invocations w) m = Inl e" and "\<not> i < R - 1"
  shows "backoff_loop api m R (i # is) delay w = (Inl e, w @ [Send m, PrintRetry (i + 1) R e])"
  using assms by (simp add: send_message_def)

declare backoff_loop.simps(2) [simp del]

text \<open>The loop only ever adds events.\<close>

lemma backoff_loop_extends: "\<exists>post. snd (backoff_loop api m R is delay w) = w @ post"
proof (induction "is" arbitrary: delay w)
  case Nil
  show ?case by simp
next
  case (Cons i "is")
  show ?case
  proof (cases "api (invocations w) m")
    case (Inr r)
    then show ?thesis by (simp add: backoff_loop_step_ok)
  next
    case (Inl e)
    show ?thesis
    proof (cases "i < R - 1")
      case False
      with Inl show ?thesis by (simp add: backoff_loop_step_last)
    next
      case more: True
      show ?thesis
      proof (cases "sleepable delay")
        case True
        from Cons.IH [of "delay * 2" "w @ [Send m, PrintRetry (i + 1) R e, Sleep delay]"]
        obtain post where "snd (backoff_loop api m R is (delay * 2)
            (w @ [Send m, PrintRetry (i + 1) R e, Sleep delay])) =
            (w @ [Send m, PrintRetry (i + 1) R e, Sleep delay]) @ post" by blast
        with Inl more True show ?thesis by (simp add: backoff_loop_step_fail)
      next
        case False
        with Inl more show ?thesis by (simp add: backoff_loop_step_refused)
      qed
    qed
  qed
qed

subsection \<open>A run of failures\<close>

text \<open>
  Doubling only grows a delay that is not negative, so \<open>time.sleep\<close> accepts all the delays
  of a run when it accepts the last one.
\<close>

lemma sleepable_doubling:
  assumes "0 \<le> d" and "d * 2 ^ n \<le> 9223372036" and "k \<le> Suc n"
  shows "\<forall>j<k. sleepable (d * 2 ^ j)"
proof (intro allI impI)
  fix j assume "j < k"
  with assms(3) have "j \<le> n" by simp
  then have "(2::int) ^ j \<le> 2 ^ n" by (intro power_increasing) simp_all
  then have "d * 2 ^ j \<le> d * 2 ^ n" using assms(1) by (rule mult_left_mono)
  with assms(1,2) show "sleepable (d * 2 ^ j)" by (simp add: sleepable_def)
qed

text \<open>
  While the operation keeps failing, an index below \<open>max_retries - 1\<close> is left and
  \<open>time.sleep\<close> returns normally, the loop goes round: \<open>k\<close> failures take it from index
  \<open>i\<close> to \<open>i + k\<close> and multiply the delay by \<open>2 ^ k\<close>.
\<close>

lemma backoff_loop_failed_attempts:
  assumes "\<forall>j<k. isl (api (invocations w + j) m)" and "i + int k \<le> R - 1"
    and "\<forall>j<k. sleepable (delay * 2 ^ j)"
  shows "backoff_loop api m R [i..R - 1] delay w =
           backoff_loop api m R [i + int k..R - 1] (delay * 2 ^ k)
             (w @ failed_attempts api m R i delay (invocations w) k)"
  using assms
proof (induction k arbitrary: i delay w)
  case 0
  show ?case by simp
next
  case (Suc k)
  from Suc.prems(1) have "isl (api (invocations w) m)" by force
  then obtain e where e: "api (invocations w) m = Inl e" by (auto simp: isl_def)
  from Suc.prems(3) have "sleepable (delay * 2 ^ 0)" by blast
  then have sl: "sleepable delay" by simp
  let ?w' = "w @ [Send m, PrintRetry (i + 1) R e, Sleep delay]"
  have inv: "invocations ?w' = Suc (invocations w)" by (simp add: invocations_append)
  from Suc.prems(2) have lt: "i < R - 1" and le: "i \<le> R - 1" by simp_all
  have rest: "\<forall>j<k. isl (api (invocations ?w' + j) m)"
  proof (intro allI impI)
    fix j assume "j < k"
    then have "Suc j < Suc k" by simp
    with Suc.prems(1) have "isl (api (invocations w + Suc j) m)" by blast
    then show "isl (api (invocations ?w' + j) m)" by (simp add: inv)
  qed
  have later: "\<forall>j<k. sleepable (delay * 2 * 2 ^ j)"
  proof (intro allI impI)
    fix j assume "j < k"
    then have "Suc j < Suc k" by simp
    with Suc.prems(3) have "sleepable (delay * 2 ^ Suc j)" by blast
    then show "sleepable (delay * 2 * 2 ^ j)" by (simp add: mult.assoc)
  qed
  have "backoff_loop api m R [i..R - 1] delay w = backoff_loop api m R (i # [i + 1..R - 1]) delay w"
    using le by (simp add: upto_rec1)
  also have "\<dots> = backoff_loop api m R [i + 1..R - 1] (delay * 2) ?w'"
    using e lt sl by (rule backoff_loop_step_fail)
  also have "\<dots> = backoff_loop api m R [i + 1 + int k..R - 1] (delay * 2 * 2 ^ k)
                      (?w' @ failed_attempts api m R (i + 1) (delay * 2) (invocations ?w') k)"
    using rest Suc.prems(2) later by (intro Suc.IH) simp_all
  finally have "backoff_loop api m R [i..R - 1] delay w =
      backoff_loop api m R [i + 1 + int k..R - 1] (delay * 2 * 2 ^ k)
        (?w' @ failed_attempts api m R (i + 1) (delay * 2) (Suc (invocations w)) k)"
    unfolding inv .
  then show ?case by (simp add: e add.assoc add.commute [of 1] mult.assoc)
qed

lemma call_after_failed_attempts:
  assumes "\<forall>j<k. isl (api (invocations w + j) m)" and "int k \<le> R - 1"
    and "\<forall>j<k. sleepable (d * 2 ^ j)"
  shows "call_api_with_backoff api m R d w =
           backoff_loop api m R (int k # [int k + 1..R - 1]) (d * 2 ^ k)
             (w @ failed_attempts api m R 0 d (invocations w) k)"
proof -
  have "call_api_with_backoff api m R d w =
          backoff_loop api m R [0 + int k..R - 1] (d * 2 ^ k)
            (w @ failed_attempts api m R 0 d (invocations w) k)"
    unfolding call_api_with_backoff_def
    using assms by (intro backoff_loop_failed_attempts) simp_all
  moreover have "[0 + int k..R - 1] = int k # [int k + 1..R - 1]"
    using assms(2) by (simp add: upto_rec1)
  ultimately show ?thesis by simp
qed

text \<open>
  When every attempt fails, the last one is at index \<open>max_retries - 1\<close>: it is printed and
  re-raised, after \<open>max_retries - 1\<close> attempts that were slept on.
\<close>

lemma call_all_attempts_fail:
  assumes "1 \<le> R" and "\<forall>j < nat R. isl (api (invocations w + j) m)"
    and "\<forall>j < nat R - 1. sleepable (d * 2 ^ j)"
  shows "call_api_with_backoff api m R d w =
           (Inl (projl (api (invocations w + nat R - 1) m)),
            w @ failed_attempts api m R 0 d (invocations w) (nat R - 1)
              @ [Send m, PrintRetry R R (projl (api (invocations w + nat R - 1) m))])"
proof -
  define k where "k = nat R - 1"
  have k: "int k = R - 1" and Sk: "nat R = Suc k"
    using assms(1) by (simp_all add: k_def)
  let ?w = "w @ failed_attempts api m R 0 d (invocations w) k"
  have inv: "invocations ?w = invocations w + k"
    by (simp add: invocations_append invocations_failed_attempts)
  have "isl (api (invocations w + k) m)"
    using assms(2) by (simp add: Sk)
  then obtain e where e: "api (invocations ?w) m = Inl e"
    unfolding inv by (auto simp: isl_def)
  have "\<forall>j<k. isl (api (invocations w + j) m)"
    using assms(2) by (simp add: Sk)
  moreover have "\<forall>j<k. sleepable (d * 2 ^ j)"
    using assms(3) by (simp add: k_def)
  ultimately have "call_api_with_backoff api m R d w =
      backoff_loop api m R (int k # [int k + 1..R - 1]) (d * 2 ^ k) ?w"
    using k by (intro call_after_failed_attempts) simp_all
  also have "\<dots> = (Inl e, ?w @ [Send m, PrintRetry (int k + 1) R e])"
    using e by (rule backoff_loop_step_last) (simp add: k)
  finally have res: "call_api_with_backoff api m R d w =
      (Inl e, ?w @ [Send m, PrintRetry (int k + 1) R e])" .
  have "e = projl (api (invocations w + nat R - 1) m)"
    using e by (simp add: inv Sk)
  moreover have "int k + 1 = R" using k by simp
  ultimately show ?thesis
    unfolding res k_def by simp
qed

subsection \<open>What stands before an invocation\<close>


text \<open>A pass through the loop body starts with an invocation.\<close>

lemma backoff_loop_starts_with_send:
  "\<exists>tl. snd (backoff_loop api m R (i # is) delay w) = w @ Send m # tl"
proof (cases "api (invocations w) m")
  case (Inr r)
  then show ?thesis by (simp add: backoff_loop_step_ok)
next
  case (Inl e)
  show ?thesis
  proof (cases "i < R - 1")
    case False
    with Inl show ?thesis by (simp add: backoff_loop_step_last)
  next
    case more: True
    show ?thesis
    proof (cases "sleepable delay")
      case False
      with Inl more show ?thesis by (simp add: backoff_loop_step_refused)
    next
      case True
      obtain post where "snd (backoff_loop api m R is (delay * 2)
          (w @ [Send m, PrintRetry (i + 1) R e, Sleep delay])) =
          (w @ [Send m, PrintRetry (i + 1) R e, Sleep delay]) @ post"
        using backoff_loop_extends by blast
      with Inl more True show ?thesis by (simp add: backoff_loop_step_fail)
    qed
  qed
qed

text \<open>
  The \<open>k\<close>-th retry does take place when the first \<open>k\<close> invocations fail, \<open>k\<close> is at most
  \<open>max_retries - 1\<close> and \<open>time.sleep\<close> accepts the delays before it.
\<close>

lemma kth_retry_takes_place:
  assumes "1 \<le> k" and "int k \<le> R - 1"
    and "\<forall>j<k. isl (api (invocations w + j) m)" and "\<forall>j<k. sleepable (d * 2 ^ j)"
  shows "\<exists>mid post.
           snd (call_api_with_backoff api m R d w) =
             w @ mid @ [Sleep (d * 2 ^ (k - 1)), Send m] @ post
         \<and> invocations mid = k"
proof -
  obtain k' where k': "k = Suc k'" using assms(1) by (cases k) simp_all
  let ?fa = "failed_attempts api m R 0 d (invocations w)"
  let ?mid = "?fa k' @ [Send m, PrintRetry (0 + int k' + 1) R (projl (api (invocations w + k') m))]"
  have fa: "?fa k = ?mid @ [Sleep (d * 2 ^ k')]"
    unfolding k' failed_attempts_snoc by simp
  have call: "call_api_with_backoff api m R d w =
      backoff_loop api m R (int k # [int k + 1..R - 1]) (d * 2 ^ k) (w @ ?fa k)"
    using assms(3,2,4) by (rule call_after_failed_attempts)
  obtain tl where "snd (call_api_with_backoff api m R d w) = (w @ ?fa k) @ Send m # tl"
    unfolding call using backoff_loop_starts_with_send by blast
  then have "snd (call_api_with_backoff api m R d w) =
      w @ ?mid @ [Sleep (d * 2 ^ (k - 1)), Send m] @ tl"
    unfolding fa by (simp add: k')
  moreover have "invocations ?mid = k"
    by (simp add: k' invocations_append invocations_failed_attempts)
  ultimately show ?thesis by blast
qed

subsection \<open>The claims about the wrapper\<close>






text \<open>
  C3. For every \<open>max_retries\<close> of at least 1 and every remote operation that succeeds on
  its first invocation, \<open>call_api_with_backoff\<close> invokes the operation exactly once,
  performs no sleep, and returns that invocation's result: the call adds the single event
  \<open>Send\<close>.
\<close>

theorem call_api_with_backoff_first_attempt_succeeds:
  assumes "1 \<le> max_retries" and "api (invocations w) user_message = Inr r"
  shows "call_api_with_backoff api user_message max_retries initial_delay w =
           (Inr (Some r), w @ [Send user_message])
       \<and> invocations (w @ [Send user_message]) = invocations w + 1
       \<and> sleeps (w @ [Send user_message]) = sleeps w"
proof -
  have "[0..max_retries - 1] = 0 # [0 + 1..max_retries - 1]"
    using assms(1) by (intro upto_rec1) simp
  then have "call_api_with_backoff api user_message max_retries initial_delay w =
           (Inr (Some r), w @ [Send user_message])"
    unfolding call_api_with_backoff_def using assms(2) by (simp add: backoff_loop_step_ok)
  then show ?thesis by (simp add: invocations_append sleeps_append)
qed

theorem call_api_with_backoff_first_attempt_succeeds_witness:
  "call_api_with_backoff always_up ''hi'' 5 1 [] =
     (Inr (Some (Response (Inr ''hello''))), [Send ''hi''])"
  using call_api_with_backoff_first_attempt_succeeds
    [where max_retries = 5 and api = always_up and w = "[]" and user_message = "''hi''"
       and r = "Response (Inr ''hello'')" and initial_delay = 1]
  by (simp add: always_up_def)

text \<open>
  C4. The claim: a call with \<open>max_retries\<close> zero or negative is either rejected or treated
  as one attempt with no retry, and does not silently return \<open>None\<close> after zero invocations.
  The code does the latter: \<open>range(max_retries)\<close> is empty, the loop body never runs, and
  line 71 returns \<open>None\<close> with no event at all, whatever the operation would have answered.
\<close>

theorem call_api_with_backoff_zero_retries_returns_None:
  "call_api_with_backoff api user_message 0 initial_delay w = (Inr None, w)
   \<and> call_api_with_backoff api user_message (- 1) initial_delay w = (Inr None, w)"
  by (simp add: call_api_with_backoff_def)

text \<open>
  C8. With \<open>initial_delay = 1\<close> and \<open>max_retries = 3\<close>, when the remote operation fails on
  the first two invocations and succeeds on the third, \<open>call_api_with_backoff\<close> sleeps 1 and
  then 2, a total of 3 time units, and returns the result of the third invocation.
\<close>

theorem call_api_with_backoff_third_attempt_succeeds:
  assumes "api (invocations w) user_message = Inl e"
    and "api (invocations w + 1) user_message = Inl e'"
    and "api (invocations w + 2) user_message = Inr r"
  shows "fst (call_api_with_backoff api user_message 3 1 w) = Inr (Some r)
       \<and> sleeps (snd (call_api_with_backoff api user_message 3 1 w)) = sleeps w @ [1, 2]
       \<and> total_slept (snd (call_api_with_backoff api user_message 3 1 w)) = total_slept w + 3
       \<and> invocations (snd (call_api_with_backoff api user_message 3 1 w)) = invocations w + 3"
proof -
  have r: "[0..3 - 1] = [0, 1, (2::int)]" by (simp add: upto_rec1)
  have "call_api_with_backoff api user_message 3 1 w =
    (Inr (Some r), w @ [Send user_message, PrintRetry 1 3 e, Sleep 1,
                        Send user_message, PrintRetry 2 3 e', Sleep 2, Send user_message])"
    unfolding call_api_with_backoff_def r
    using assms
    by (simp add: backoff_loop.simps(2) send_message_def sleep_def invocations_append)
  then show ?thesis by (simp add: sleeps_append total_slept_append invocations_append)
qed

theorem call_api_with_backoff_third_attempt_succeeds_witness:
  "fst (call_api_with_backoff down_twice ''hi'' 3 1 []) = Inr (Some (Response (Inr ''hello'')))
   \<and> sleeps (snd (call_api_with_backoff down_twice ''hi'' 3 1 [])) = [1, 2]
   \<and> total_slept (snd (call_api_with_backoff down_twice ''hi'' 3 1 [])) = 3
   \<and> invocations (snd (call_api_with_backoff down_twice ''hi'' 3 1 [])) = 3"
  using call_api_with_backoff_third_attempt_succeeds
    [where api = down_twice and w = "[]" and user_message = "''hi''"
       and e = "Exn ''ConnectionError'' ''down''" and e' = "Exn ''ConnectionError'' ''down''"
       and r = "Response (Inr ''hello'')"]
  by (simp add: down_twice_def)




section \<open>Properties of the interaction loop\<close>

subsection \<open>Stripping and lowering\<close>

lemma strip_whitespace:
  assumes "list_all isspace s"
  shows "strip s = []"
proof -
  have "dropWhile isspace s = []" using assms by (simp add: list_all_iff)
  show ?thesis unfolding strip_def \<open>dropWhile isspace s = []\<close> by simp
qed

lemma strip_padded:
  assumes "list_all isspace pre" and "list_all isspace post"
    and "list_all (\<lambda>c. \<not> isspace c) s"
  shows "strip (pre @ s @ post) = s"
proof (cases s rule: rev_cases)
  case Nil
  with assms(1,2) show ?thesis by (simp add: strip_whitespace)
next
  case (snoc ys y)
  with assms(3) have y: "\<not> isspace y" by simp
  have front: "dropWhile isspace (pre @ s @ post) = s @ post"
  proof (cases s)
    case Nil
    with snoc show ?thesis by simp
  next
    case (Cons x xs)
    with assms(3) have "\<not> isspace x" by simp
    with Cons assms(1) show ?thesis by (simp add: list_all_iff)
  qed
  have "dropWhile isspace (rev (s @ post)) = dropWhile isspace (rev post @ rev s)" by simp
  also have "\<dots> = dropWhile isspace (rev s)"
    using assms(2) by (intro dropWhile_append2) (simp add: list_all_iff)
  also have "\<dots> = rev s" using y by (simp add: snoc)
  finally show ?thesis by (simp add: strip_def front)
qed

lemma capital_of_lowercase_letter:
  assumes "either_case c k" and "lowercase_letter k" and "c \<noteq> k"
  shows "65 \<le> (of_char c :: nat)" and "(of_char c :: nat) \<le> 90"
    and "(of_char c :: nat) + 32 = of_char k"
  using assms by (simp_all add: either_case_def lowercase_letter_def)

lemma lower_char_either_case:
  assumes "either_case c k" and "lowercase_letter k"
  shows "lower_char c = k"
proof (cases "c = k")
  case True
  with assms(2) show ?thesis by (simp add: lower_char_def lowercase_letter_def)
next
  case False
  note cap = capital_of_lowercase_letter [OF assms False]
  from cap(1,2) have "lower_char c = char_of ((of_char c :: nat) + 32)"
    by (simp add: lower_char_def)
  also have "\<dots> = k" unfolding cap(3) by simp
  finally show ?thesis .
qed

lemma not_isspace_either_case:
  assumes "either_case c k" and "lowercase_letter k"
  shows "\<not> isspace c"
proof (cases "c = k")
  case True
  with assms(2) show ?thesis by (simp add: isspace_def lowercase_letter_def)
next
  case False
  note cap = capital_of_lowercase_letter [OF assms False]
  from cap(1,2) show ?thesis by (simp add: isspace_def)
qed

lemma lower_in_any_case:
  assumes "in_any_case s keyword" and "list_all lowercase_letter keyword"
  shows "lower s = keyword"
  using assms unfolding in_any_case_def lower_def
  by (induction s keyword rule: list_all2_induct) (simp_all add: lower_char_either_case)

lemma no_space_in_any_case:
  assumes "in_any_case s keyword" and "list_all lowercase_letter keyword"
  shows "list_all (\<lambda>c. \<not> isspace c) s"
  using assms unfolding in_any_case_def
  by (induction s keyword rule: list_all2_induct) (simp_all add: not_isspace_either_case)

lemma lower_strip_keyword:
  assumes "list_all isspace pre" and "list_all isspace post"
    and "in_any_case s keyword" and "list_all lowercase_letter keyword"
  shows "lower (strip (pre @ s @ post)) = keyword"
  using assms by (simp add: strip_padded no_space_in_any_case lower_in_any_case)

lemma lower_strip_exit_or_quit:
  assumes "list_all isspace pre" and "list_all isspace post"
    and "in_any_case s ''exit'' \<or> in_any_case s ''quit''"
  shows "lower (strip (pre @ s @ post)) = ''exit'' \<or> lower (strip (pre @ s @ post)) = ''quit''"
  using assms(3)
proof
  assume "in_any_case s ''exit''"
  with assms(1,2) have "lower (strip (pre @ s @ post)) = ''exit''"
    by (rule lower_strip_keyword) (simp add: lowercase_letter_def)
  then show ?thesis ..
next
  assume "in_any_case s ''quit''"
  with assms(1,2) have "lower (strip (pre @ s @ post)) = ''quit''"
    by (rule lower_strip_keyword) (simp add: lowercase_letter_def)
  then show ?thesis ..
qed

subsection \<open>The claims about the loop\<close>



text \<open>
  C6. In the interaction loop of \<open>run_chatbot\<close>, for every input line that is exactly
  "exit" or "quit" in any letter case, the loop terminates without invoking the remote
  operation on that iteration: it shows the prompt, says goodbye and is left by \<open>break\<close>,
  whatever lines remain.
\<close>

theorem interaction_loop_exit_keyword:
  assumes "in_any_case line ''exit'' \<or> in_any_case line ''quit''"
  shows "interaction_loop chat (line # rest) w = (Inr (), w @ [Prompt, PrintGoodbye])
       \<and> invocations (w @ [Prompt, PrintGoodbye]) = invocations w"
proof -
  have "lower (strip ([] @ line @ [])) = ''exit'' \<or> lower (strip ([] @ line @ [])) = ''quit''"
    using assms by (intro lower_strip_exit_or_quit) simp_all
  then show ?thesis by (auto simp: invocations_append)
qed

theorem interaction_loop_exit_keyword_witness:
  "interaction_loop always_up [''QuIt'', ''hello''] [] = (Inr (), [Prompt, PrintGoodbye])"
  using interaction_loop_exit_keyword
    [where line = "''QuIt''" and chat = always_up and rest = "[''hello'']" and w = "[]"]
  by (simp add: in_any_case_def either_case_def lowercase_letter_def)

text \<open>
  C7. When all retry attempts of \<open>call_api_with_backoff\<close> fail, the failure is propagated
  as an exception, not returned as a value, and the interaction loop catches it, prints a
  diagnostic and exits the loop rather than continuing. For a line that is a message
  (not blank and not an exit keyword once stripped) and a session whose next five
  invocations fail: the call of line 108 raises the last failure after five invocations,
  and the loop prints the diagnostic with it and is left by \<open>break\<close>, leaving the remaining
  lines unread.
\<close>

theorem interaction_loop_retries_exhausted:
  assumes "strip line \<noteq> []"
    and "lower (strip line) \<noteq> ''exit''" and "lower (strip line) \<noteq> ''quit''"
    and "\<forall>j<5. isl (chat (invocations w + j) (strip line))"
  shows "fst (call_api_with_backoff chat (strip line) 5 1 (w @ [Prompt])) =
           Inl (projl (chat (invocations w + 4) (strip line)))
       \<and> interaction_loop chat (line # rest) w =
           (Inr (), snd (call_api_with_backoff chat (strip line) 5 1 (w @ [Prompt]))
                      @ [PrintUnrecoverable (projl (chat (invocations w + 4) (strip line)))])
       \<and> invocations (snd (call_api_with_backoff chat (strip line) 5 1 (w @ [Prompt]))) =
           invocations w + 5"
proof -
  let ?c = "call_api_with_backoff chat (strip line) 5 1 (w @ [Prompt])"
  let ?e = "projl (chat (invocations w + 4) (strip line))"
  have inv: "invocations (w @ [Prompt]) = invocations w" by (simp add: invocations_append)
  have "\<forall>j < nat 5. isl (chat (invocations (w @ [Prompt]) + j) (strip line))"
    using assms(4) by (simp add: inv)
  moreover have "\<forall>j < nat 5 - 1. sleepable (1 * 2 ^ j)"
    by (rule sleepable_doubling [where n = 3]) simp_all
  ultimately have "?c =
      (Inl (projl (chat (invocations (w @ [Prompt]) + nat 5 - 1) (strip line))),
       (w @ [Prompt])
         @ failed_attempts chat (strip line) 5 0 1 (invocations (w @ [Prompt])) (nat 5 - 1)
         @ [Send (strip line), PrintRetry 5 5
              (projl (chat (invocations (w @ [Prompt]) + nat 5 - 1) (strip line)))])"
    by (intro call_all_attempts_fail) simp_all
  then obtain w' where c: "?c = (Inl ?e, w')" and w': "invocations w' = invocations w + 5"
    by (simp add: inv invocations_append invocations_failed_attempts add.commute)
  have "interaction_loop chat (line # rest) w = (Inr (), w' @ [PrintUnrecoverable ?e])"
    using assms(1,2,3) by (simp add: c)
  with w' show ?thesis by (simp add: c)
qed

theorem interaction_loop_retries_exhausted_witness:
  "interaction_loop always_down [''hello'', ''more''] [] =
     (Inr (), snd (call_api_with_backoff always_down ''hello'' 5 1 [Prompt])
                @ [PrintUnrecoverable (Exn ''ConnectionError'' ''down'')])
   \<and> invocations (snd (call_api_with_backoff always_down ''hello'' 5 1 [Prompt])) = 5"
  using interaction_loop_retries_exhausted
    [where line = "''hello''" and chat = always_down and rest = "[''more'']" and w = "[]"]
  by (simp add: always_down_def strip_def isspace_def lower_def lower_char_def)

text \<open>
  C10. In the interaction loop of \<open>run_chatbot\<close>, an input line whose stripped form is
  "exit" or "quit" in any letter case, for example \<open>"  Exit  "\<close>, also terminates the loop
  without invoking the remote operation, because the input is stripped before the keyword
  comparison. Such a line is the keyword, in any letter case, between two runs of
  whitespace.
\<close>

theorem interaction_loop_padded_exit_keyword:
  assumes "list_all isspace pre" and "list_all isspace post"
    and "in_any_case s ''exit'' \<or> in_any_case s ''quit''"
  shows "interaction_loop chat ((pre @ s @ post) # rest) w = (Inr (), w @ [Prompt, PrintGoodbye])
       \<and> invocations (w @ [Prompt, PrintGoodbye]) = invocations w"
proof -
  have "lower (strip (pre @ s @ post)) = ''exit'' \<or> lower (strip (pre @ s @ post)) = ''quit''"
    using assms by (rule lower_strip_exit_or_quit)
  then show ?thesis by (auto simp: invocations_append)
qed

theorem interaction_loop_padded_exit_keyword_witness:
  "interaction_loop always_up [''  Exit  '', ''hello''] [] = (Inr (), [Prompt, PrintGoodbye])"
  using interaction_loop_padded_exit_keyword
    [where pre = "''  ''" and s = "''Exit''" and post = "''  ''" and chat = always_up
       and rest = "[''hello'']" and w = "[]"]
  by (simp add: isspace_def in_any_case_def either_case_def lowercase_letter_def)

end
